theory Spec2Isabelle
  imports Main
begin

section \<open>The hook useOnClickOutside (src/hooks/dom/useOnClickOutside.ts)\<close>

text \<open>
  The hook takes a ref object \<open>elementRef\<close> and a zero-argument \<open>callback\<close>. Inside an
  effect with the dependencies \<open>[elementRef, callback]\<close> it declares the handler
  \<^verbatim>\<open>
  function handleClick(e: MouseEvent | TouchEvent) {
    if (!elementRef.current?.contains(e.target as Node)) {
      callback();
    }
  }
  \<close>
  and passes it to \<open>useEventListener\<close> twice, for "mousedown" and for "touchstart".
\<close>

subsection \<open>Nodes and the containment test of the DOM\<close>

text \<open>
  A node is an object: it has an identity and an ordered list of children. An element is
  held together with its subtree, which is the part of the document that
  \<open>Node.contains\<close> walks.
\<close>

type_synonym nid = nat

datatype node = Node (node_id: nid) (children: "node list")

text \<open>
  \<open>el.contains(other)\<close>: true when \<open>other\<close> is \<open>el\<close> itself or is found below one of
  its children, false otherwise; false when \<open>other\<close> is null. The argument is the
  identity of the other node, \<open>None\<close> for null.
\<close>

fun contains :: "node \<Rightarrow> nid option \<Rightarrow> bool" where
  "contains el None = False"
| "contains (Node i cs) (Some t) = (t = i \<or> list_ex (\<lambda>c. contains c (Some t)) cs)"

text \<open>The proper descendants of a node, in document order (the spec's "descendant").\<close>

fun descendants :: "node \<Rightarrow> nid list" where
  "descendants (Node i cs) = concat (map (\<lambda>c. node_id c # descendants c) cs)"

subsection \<open>The two JavaScript operators of the guard\<close>

text \<open>
  \<open>x?.m(a)\<close> is \<open>undefined\<close> when \<open>x\<close> is null or undefined, without calling anything,
  and the result of the call otherwise.
\<close>

definition opt_chain :: "'a option \<Rightarrow> ('a \<Rightarrow> 'b) \<Rightarrow> 'b option" where
  "opt_chain x m = (case x of None \<Rightarrow> None | Some v \<Rightarrow> Some (m v))"

text \<open>\<open>!v\<close> for a value that is a boolean or \<open>undefined\<close>: \<open>undefined\<close> is falsy.\<close>

fun js_not :: "bool option \<Rightarrow> bool" where
  "js_not None = True"
| "js_not (Some b) = (\<not> b)"

subsection \<open>Events, ref objects, callbacks\<close>

text \<open>
  An event object: its type, its target (null or a node) and the flag that
  \<open>preventDefault\<close> would set.
\<close>

record event =
  etype :: string
  target :: "nid option"
  default_prevented :: bool

type_synonym ref_id = nat
type_synonym cb_id = nat

text \<open>
  The mutable world a callback may touch: the \<open>current\<close> field of every ref object (null
  or an element with its subtree) and the state of the application.
\<close>

record 'u world =
  refs :: "ref_id \<Rightarrow> node option"
  user :: 'u

text \<open>
  Callbacks are functions with an identity; what each one does to the world is given by an
  environment.
\<close>

type_synonym 'u callbacks = "cb_id \<Rightarrow> 'u world \<Rightarrow> 'u world"

text \<open>
  The state threaded through the delivery of one event: the event object, the world, and
  the log of the callbacks invoked so far, oldest first. Callbacks take no argument, so
  they reach neither the event nor the log.
\<close>

record 'u exec =
  ev :: event
  wld :: "'u world"
  trace :: "cb_id list"

text \<open>\<open>callback()\<close>: run the callback on the world and log the invocation.\<close>

definition call :: "'u callbacks \<Rightarrow> cb_id \<Rightarrow> 'u exec \<Rightarrow> 'u exec" where
  "call env cb x = x\<lparr>wld := env cb (wld x), trace := trace x @ [cb]\<rparr>"

subsection \<open>The handler\<close>

text \<open>
  \<open>handleClick\<close> closes over \<open>elementRef\<close> and \<open>callback\<close>; the ref is read when the
  event arrives.
\<close>

definition handleClick :: "'u callbacks \<Rightarrow> ref_id \<Rightarrow> cb_id \<Rightarrow> 'u exec \<Rightarrow> 'u exec" where
  "handleClick env elementRef callback x =
     (if js_not (opt_chain (refs (wld x) elementRef) (\<lambda>el. contains el (target (ev x))))
      then call env callback x
      else x)"

section \<open>The lifecycle of the hook\<close>

subsection \<open>The global input surface\<close>

text \<open>
  Every run of the effect creates a new function object \<open>handleClick\<close>; a handler is
  that object: its identity and the \<open>elementRef\<close> and \<open>callback\<close> it closed over.
\<close>

datatype handler = HandleClick (fn_id: nat) (cap_ref: ref_id) (cap_cb: cb_id)

type_synonym listener = "string \<times> handler"

text \<open>
  The state of a page on which one component uses the hook: the listeners on the global
  input surface in the order of registration, the world, the log of callback invocations,
  the dependencies of the last run of the effect (\<open>None\<close> while the component is not
  mounted), the listeners that the registration primitive has noted for release, and the
  counter that gives function objects their identity.
\<close>

record 'u system =
  surface :: "listener list"
  state :: "'u world"
  calls :: "cb_id list"
  deps :: "(ref_id \<times> cb_id) option"
  scoped :: "listener list"
  fresh :: nat

text \<open>
  \<open>addEventListener\<close> of the DOM ignores a listener that is already registered for the
  type; \<open>removeEventListener\<close> takes the listener of that type and identity away.
\<close>

definition addEventListener :: "string \<Rightarrow> handler \<Rightarrow> listener list \<Rightarrow> listener list" where
  "addEventListener ty h ls = (if (ty, h) \<in> set ls then ls else ls @ [(ty, h)])"


text \<open>
  Modelled from the spec: \<open>useEventListener\<close>, imported from \<open>./useEventListener\<close>, is
  not among the sources. The spec names it as a consumed capability, "an event-listener
  registration primitive scoped likewise", that is, like the effect primitive: "run setup
  on mount/dependency-change, run cleanup on unmount/dependency-change". The setup adds
  the listener to the global input surface and notes it for the cleanup.
\<close>

definition useEventListener :: "string \<Rightarrow> handler \<Rightarrow> 'u system \<Rightarrow> 'u system" where
  "useEventListener ty h s =
     s\<lparr>surface := addEventListener ty h (surface s), scoped := scoped s @ [(ty, h)]\<rparr>"


subsection \<open>The effect and the hook\<close>

text \<open>
  The body of the effect (lines 34 to 40): create \<open>handleClick\<close>, closing over
  \<open>elementRef\<close> and \<open>callback\<close>, and register it for "mousedown", then for
  "touchstart". Both calls are expression statements, so whatever \<open>useEventListener\<close>
  offers for release is dropped, and the body has no \<open>return\<close>: the effect hands no
  cleanup function to React.
\<close>

definition effect :: "ref_id \<Rightarrow> cb_id \<Rightarrow> 'u system \<Rightarrow> 'u system" where
  "effect elementRef callback s =
     (let handleClick = HandleClick (fresh s) elementRef callback;
          s0 = s\<lparr>fresh := Suc (fresh s)\<rparr>;
          s1 = useEventListener ''mousedown'' handleClick s0;
          s2 = useEventListener ''touchstart'' handleClick s1
      in s2)"

text \<open>
  \<open>useEffect(setup, deps)\<close> of React: the setup runs after the first render and after
  every render whose dependencies differ, by identity, from those of the previous run.
  Before a re-run React calls the cleanup function that the previous run of the setup
  returned. The setup of this hook returns none, so there is nothing to call and the
  setup runs on the page as it is.
\<close>

definition useEffect ::
  "('u system \<Rightarrow> 'u system) \<Rightarrow> ref_id \<times> cb_id \<Rightarrow> 'u system \<Rightarrow> 'u system" where
  "useEffect setup ds s =
     (if deps s = Some ds then s else (setup s)\<lparr>deps := Some ds\<rparr>)"

text \<open>
  The hook, called at every render of the component with the current \<open>elementRef\<close> and
  \<open>callback\<close>. It returns \<open>void\<close>: only the page changes.
\<close>

definition useOnClickOutside :: "ref_id \<Rightarrow> cb_id \<Rightarrow> 'u system \<Rightarrow> 'u system" where
  "useOnClickOutside elementRef callback s =
     useEffect (effect elementRef callback) (elementRef, callback) s"

text \<open>
  Unmounting the component: React calls the cleanup function that the last run of the
  setup returned, of which there is none, and forgets the effect. No listener is touched.
\<close>

definition unmount :: "'u system \<Rightarrow> 'u system" where
  "unmount s = s\<lparr>deps := None\<rparr>"

subsection \<open>Delivery of an event\<close>

text \<open>
  The surface calls, in the order of registration, every listener registered for the type
  of the event.
\<close>

fun invoke_listener :: "'u callbacks \<Rightarrow> listener \<Rightarrow> 'u exec \<Rightarrow> 'u exec" where
  "invoke_listener env (ty, HandleClick k r cb) x =
     (if ty = etype (ev x) then handleClick env r cb x else x)"

definition dispatchEvent :: "'u callbacks \<Rightarrow> event \<Rightarrow> 'u system \<Rightarrow> event \<times> 'u system" where
  "dispatchEvent env e s =
     (let x = fold (invoke_listener env) (surface s) \<lparr>ev = e, wld = state s, trace = calls s\<rparr>
      in (ev x, s\<lparr>state := wld x, calls := trace x\<rparr>))"

subsection \<open>Histories of a page\<close>

text \<open>
  What happens to the page: the component renders with some \<open>elementRef\<close> and
  \<open>callback\<close>, it unmounts, an event is delivered, or the application changes the world
  (React attaching or detaching a ref, for one).
\<close>

datatype 'u action =
  Render ref_id cb_id
| Unmount
| Deliver event
| Mutate "'u world \<Rightarrow> 'u world"

fun step :: "'u callbacks \<Rightarrow> 'u action \<Rightarrow> 'u system \<Rightarrow> 'u system" where
  "step env (Render r cb) s = useOnClickOutside r cb s"
| "step env Unmount s = unmount s"
| "step env (Deliver e) s = snd (dispatchEvent env e s)"
| "step env (Mutate f) s = s\<lparr>state := f (state s)\<rparr>"

definition init :: "'u world \<Rightarrow> 'u system" where
  "init w = \<lparr>surface = [], state = w, calls = [], deps = None, scoped = [], fresh = 0\<rparr>"

definition run :: "'u callbacks \<Rightarrow> 'u action list \<Rightarrow> 'u system \<Rightarrow> 'u system" where
  "run env acts s = fold (step env) acts s"

text \<open>The two listeners of an activation whose handler has the identity \<open>k\<close>.\<close>

definition listeners_of :: "nat \<Rightarrow> ref_id \<Rightarrow> cb_id \<Rightarrow> listener list" where
  "listeners_of k r cb =
     [(''mousedown'', HandleClick k r cb), (''touchstart'', HandleClick k r cb)]"

subsection \<open>A sample page\<close>

text \<open>
  The scenario of the spec: the element is a div (node 1) that contains a button
  (node 2); node 9 is elsewhere in the document. Ref 0 holds the div, ref 1 holds
  nothing. Every callback adds its identity to a counter.
\<close>

definition div_el :: node where
  "div_el = Node 1 [Node 2 []]"

definition sample_world :: "nat world" where
  "sample_world = \<lparr>refs = (\<lambda>r. if r = 0 then Some div_el else None), user = 0\<rparr>"

definition sample_env :: "nat callbacks" where
  "sample_env cb w = w\<lparr>user := user w + cb\<rparr>"

definition press :: "string \<Rightarrow> nid option \<Rightarrow> event" where
  "press ty t = \<lparr>etype = ty, target = t, default_prevented = False\<rparr>"

definition sample_exec :: "nid option \<Rightarrow> nat exec" where
  "sample_exec t = \<lparr>ev = press ''mousedown'' t, wld = sample_world, trace = []\<rparr>"

text \<open>
  A second delivery that agrees with \<open>sample_exec (Some 9)\<close> on the element and on the
  target only: a touch, a different application state, a log that is not empty.
\<close>

definition other_exec :: "nat exec" where
  "other_exec =
     \<lparr>ev = press ''touchstart'' (Some 9), wld = sample_world\<lparr>user := 42\<rparr>, trace = [1, 2]\<rparr>"

text \<open>
  The page after the component has rendered once with ref 0 and callback 5; the same
  page after a second render with callback 6; the page after the component has rendered,
  unmounted and rendered again with the same ref and callback; and the page after a render
  with ref 1, which holds nothing, followed by a render with ref 0.
\<close>

definition sample_page :: "nat system" where
  "sample_page = run sample_env [Render 0 5] (init sample_world)"




section \<open>Properties of the handler\<close>

lemma list_ex_contains:
  "(\<And>c. c \<in> set cs \<Longrightarrow> contains c (Some t) = (t = node_id c \<or> t \<in> set (descendants c)))
   \<Longrightarrow> list_ex (\<lambda>c. contains c (Some t)) cs =
       (\<exists>c \<in> set cs. t = node_id c \<or> t \<in> set (descendants c))"
  by (simp add: list_ex_iff)

lemma contains_iff:
  "contains el (Some t) = (t = node_id el \<or> t \<in> set (descendants el))"
proof (induction el)
  case (Node i cs)
  have "list_ex (\<lambda>c. contains c (Some t)) cs =
        (\<exists>c \<in> set cs. t = node_id c \<or> t \<in> set (descendants c))"
    using Node.IH by (rule list_ex_contains)
  then show ?case by auto
qed

lemma call_neq: "call env cb x \<noteq> x"
proof
  assume "call env cb x = x"
  then have "trace (call env cb x) = trace x" by simp
  then show False by (simp add: call_def)
qed

lemmas sample_defs = div_el_def sample_world_def sample_env_def press_def sample_exec_def

lemma handleClick_cases:
  "handleClick env r cb x = x \<or> handleClick env r cb x = call env cb x"
  by (simp add: handleClick_def)

lemma decision_iff:
  "(handleClick env r cb x = call env cb x) =
   js_not (opt_chain (refs (wld x) r) (\<lambda>el. contains el (target (ev x))))"
  using call_neq [of env cb x] by (auto simp: handleClick_def)

lemma guard_absent:
  "refs (wld x) r = None \<Longrightarrow> handleClick env r cb x = call env cb x"
  by (simp add: handleClick_def opt_chain_def)

lemma guard_present:
  "refs (wld x) r = Some el \<Longrightarrow>
   handleClick env r cb x = (if contains el (target (ev x)) then x else call env cb x)"
  by (simp add: handleClick_def opt_chain_def)

text \<open>
  C1. When the ref holds an element and the origin node of the event is neither that
  element nor one of its descendants, the handler invokes the callback: the callback runs
  on the world, with no argument, and one invocation is logged. The handler does not look
  at the type of the event, so this holds for mousedown and touchstart events alike.
\<close>

theorem handleClick_outside_invokes:
  assumes "refs (wld x) elementRef = Some el"
    and "target (ev x) = Some t"
    and "t \<noteq> node_id el"
    and "t \<notin> set (descendants el)"
  shows "handleClick env elementRef callback x = call env callback x
       \<and> trace (handleClick env elementRef callback x) = trace x @ [callback]
       \<and> wld (handleClick env elementRef callback x) = env callback (wld x)"
proof -
  have "\<not> contains el (target (ev x))"
    using assms(2-4) by (simp add: contains_iff)
  then have "handleClick env elementRef callback x = call env callback x"
    using assms(1) by (simp add: guard_present)
  then show ?thesis by (simp add: call_def)
qed

theorem handleClick_outside_invokes_witness:
  "refs (wld (sample_exec (Some 9))) 0 = Some div_el
   \<and> target (ev (sample_exec (Some 9))) = Some 9
   \<and> 9 \<noteq> node_id div_el
   \<and> 9 \<notin> set (descendants div_el)
   \<and> trace (handleClick sample_env 0 5 (sample_exec (Some 9))) = [5]
   \<and> user (wld (handleClick sample_env 0 5 (sample_exec (Some 9)))) = 5"
  using handleClick_outside_invokes [of "sample_exec (Some 9)" 0 div_el 9 sample_env 5]
  by (simp add: sample_defs call_def)

text \<open>
  C2. When the origin node of the event is the referenced element or one of its
  descendants, the handler does nothing: the callback is not invoked, and the event, the
  world and the log are as they were.
\<close>

theorem handleClick_inside_silent:
  assumes "refs (wld x) elementRef = Some el"
    and "target (ev x) = Some t"
    and "t = node_id el \<or> t \<in> set (descendants el)"
  shows "handleClick env elementRef callback x = x"
proof -
  have "contains el (target (ev x))"
    using assms(2,3) by (simp add: contains_iff)
  then show ?thesis
    using assms(1) by (simp add: guard_present)
qed

theorem handleClick_inside_silent_witness:
  "refs (wld (sample_exec (Some 2))) 0 = Some div_el
   \<and> target (ev (sample_exec (Some 2))) = Some 2
   \<and> (2 = node_id div_el \<or> 2 \<in> set (descendants div_el))
   \<and> handleClick sample_env 0 5 (sample_exec (Some 2)) = sample_exec (Some 2)
   \<and> trace (handleClick sample_env 0 5 (sample_exec (Some 2))) = []"
  using handleClick_inside_silent [of "sample_exec (Some 2)" 0 div_el 2 sample_env 5]
  by (simp add: sample_defs call_def)

text \<open>
  C3. While \<open>elementRef.current\<close> is absent, the handler invokes the callback on every
  event, whatever the origin node of the event is (a node or null).
\<close>

theorem handleClick_absent_ref_invokes:
  assumes "refs (wld x) elementRef = None"
  shows "handleClick env elementRef callback x = call env callback x
       \<and> trace (handleClick env elementRef callback x) = trace x @ [callback]"
  using assms by (simp add: guard_absent call_def)

theorem handleClick_absent_ref_invokes_witness:
  "refs (wld (sample_exec (Some 2))) 1 = None
   \<and> trace (handleClick sample_env 1 5 (sample_exec (Some 2))) = [5]
   \<and> trace (handleClick sample_env 1 5 (sample_exec None)) = [5]"
  using handleClick_absent_ref_invokes [of "sample_exec (Some 2)" 1 sample_env 5]
    handleClick_absent_ref_invokes [of "sample_exec None" 1 sample_env 5]
  by (simp add: sample_defs call_def)

text \<open>
  C9. When the target of the event is null and the referenced element is present,
  \<open>contains\<close> answers false and the handler invokes the callback.
\<close>

theorem handleClick_null_target_invokes:
  assumes "refs (wld x) elementRef = Some el"
    and "target (ev x) = None"
  shows "\<not> contains el (target (ev x))
       \<and> handleClick env elementRef callback x = call env callback x
       \<and> trace (handleClick env elementRef callback x) = trace x @ [callback]"
  using assms by (simp add: guard_present call_def)

theorem handleClick_null_target_invokes_witness:
  "refs (wld (sample_exec None)) 0 = Some div_el
   \<and> target (ev (sample_exec None)) = None
   \<and> trace (handleClick sample_env 0 5 (sample_exec None)) = [5]"
  using handleClick_null_target_invokes [of "sample_exec None" 0 div_el sample_env 5]
  by (simp add: sample_defs call_def)

text \<open>
  C10. Whether the handler invokes the callback depends on \<open>elementRef.current\<close> (with
  its subtree) and on the target of the event only. Two runs that agree on these two make
  the same decision, whatever else differs: the ref object, the callback and what it does,
  the rest of the world, the type of the event, the log.
\<close>

theorem handleClick_decision_deterministic:
  assumes "refs (wld x) r = refs (wld y) r'"
    and "target (ev x) = target (ev y)"
  shows "(handleClick env r cb x = call env cb x) = (handleClick env' r' cb' y = call env' cb' y)
       \<and> (handleClick env r cb x = x) = (handleClick env' r' cb' y = y)"
proof -
  have d: "(handleClick env r cb x = call env cb x) =
           (handleClick env' r' cb' y = call env' cb' y)"
    using assms by (simp add: decision_iff)
  have "(handleClick env r cb x = x) = (handleClick env r cb x \<noteq> call env cb x)"
    using handleClick_cases [of env r cb x] call_neq [of env cb x] by auto
  moreover have "(handleClick env' r' cb' y = y) = (handleClick env' r' cb' y \<noteq> call env' cb' y)"
    using handleClick_cases [of env' r' cb' y] call_neq [of env' cb' y] by auto
  ultimately show ?thesis using d by simp
qed

theorem handleClick_decision_deterministic_witness:
  "refs (wld (sample_exec (Some 9))) 0 = refs (wld other_exec) 0
   \<and> target (ev (sample_exec (Some 9))) = target (ev other_exec)
   \<and> trace (handleClick sample_env 0 5 (sample_exec (Some 9))) = [5]
   \<and> trace (handleClick (\<lambda>cb w. w) 0 8 other_exec) = [1, 2, 8]"
proof -
  have h1: "refs (wld (sample_exec (Some 9))) 0 = refs (wld other_exec) 0"
    by (simp add: sample_defs other_exec_def)
  have h2: "target (ev (sample_exec (Some 9))) = target (ev other_exec)"
    by (simp add: sample_defs other_exec_def)
  have a: "handleClick sample_env 0 5 (sample_exec (Some 9)) = call sample_env 5 (sample_exec (Some 9))"
    by (simp add: handleClick_def opt_chain_def sample_defs)
  have "handleClick (\<lambda>cb w. w) 0 8 other_exec = call (\<lambda>cb w. w) 8 other_exec"
    using handleClick_decision_deterministic
      [OF h1 h2, of sample_env 5 "\<lambda>cb w. w" 8] a by simp
  then show ?thesis
    using h1 h2 a by (simp add: call_def sample_defs other_exec_def)
qed

section \<open>Properties of the lifecycle\<close>

subsection \<open>What each step leaves alone\<close>

lemma handleClick_ev: "ev (handleClick env r cb x) = ev x"
  by (simp add: handleClick_def call_def)

lemma effect_frame:
  "state (effect r cb s) = state s \<and> calls (effect r cb s) = calls s
   \<and> deps (effect r cb s) = deps s \<and> fresh (effect r cb s) = Suc (fresh s)"
  by (simp add: effect_def useEventListener_def Let_def)




lemma render_frame:
  "state (useOnClickOutside r cb s) = state s \<and> calls (useOnClickOutside r cb s) = calls s"
  by (simp add: useOnClickOutside_def useEffect_def effect_frame)

lemma unmount_frame:
  "state (unmount s) = state s \<and> calls (unmount s) = calls s \<and> fresh (unmount s) = fresh s
   \<and> surface (unmount s) = surface s \<and> scoped (unmount s) = scoped s"
  by (simp add: unmount_def)

lemma dispatch_frame:
  "surface (snd (dispatchEvent env e s)) = surface s
   \<and> scoped (snd (dispatchEvent env e s)) = scoped s
   \<and> deps (snd (dispatchEvent env e s)) = deps s
   \<and> fresh (snd (dispatchEvent env e s)) = fresh s"
  by (simp add: dispatchEvent_def Let_def)





lemma invoke_listener_cases:
  "invoke_listener env l x = x \<or> (\<exists>cb. invoke_listener env l x = call env cb x)"
proof (cases l)
  case (Pair ty h)
  then show ?thesis using handleClick_cases [of env "cap_ref h" "cap_cb h" x]
    by (cases h) auto
qed

lemma fold_invoke_listener:
  "\<exists>ys. ev (fold (invoke_listener env) ls x) = ev x
        \<and> trace (fold (invoke_listener env) ls x) = trace x @ ys
        \<and> wld (fold (invoke_listener env) ls x) = fold env ys (wld x)"
proof (induction ls arbitrary: x)
  case Nil
  then show ?case by simp
next
  case (Cons l ls)
  obtain zs where zs: "ev (invoke_listener env l x) = ev x"
    "trace (invoke_listener env l x) = trace x @ zs"
    "wld (invoke_listener env l x) = fold env zs (wld x)"
  proof (cases "invoke_listener env l x = x")
    case True
    then show ?thesis using that [of "[]"] by simp
  next
    case False
    then obtain cb where "invoke_listener env l x = call env cb x"
      using invoke_listener_cases [of env l x] by blast
    then show ?thesis using that [of "[cb]"] by (simp add: call_def)
  qed
  obtain ys where "ev (fold (invoke_listener env) ls (invoke_listener env l x)) = ev (invoke_listener env l x)"
    "trace (fold (invoke_listener env) ls (invoke_listener env l x)) = trace (invoke_listener env l x) @ ys"
    "wld (fold (invoke_listener env) ls (invoke_listener env l x)) = fold env ys (wld (invoke_listener env l x))"
    using Cons.IH [of "invoke_listener env l x"] by blast
  then have "ev (fold (invoke_listener env) (l # ls) x) = ev x
     \<and> trace (fold (invoke_listener env) (l # ls) x) = trace x @ (zs @ ys)
     \<and> wld (fold (invoke_listener env) (l # ls) x) = fold env (zs @ ys) (wld x)"
    using zs by simp
  then show ?case by blast
qed

lemma dispatch_world:
  "fst (dispatchEvent env e s) = e
   \<and> state (snd (dispatchEvent env e s)) =
       fold env (drop (length (calls s)) (calls (snd (dispatchEvent env e s)))) (state s)"
proof -
  obtain ys where "ev (fold (invoke_listener env) (surface s) \<lparr>ev = e, wld = state s, trace = calls s\<rparr>) = e"
    "trace (fold (invoke_listener env) (surface s) \<lparr>ev = e, wld = state s, trace = calls s\<rparr>) = calls s @ ys"
    "wld (fold (invoke_listener env) (surface s) \<lparr>ev = e, wld = state s, trace = calls s\<rparr>) = fold env ys (state s)"
    using fold_invoke_listener [of env "surface s" "\<lparr>ev = e, wld = state s, trace = calls s\<rparr>"] by auto
  then show ?thesis by (simp add: dispatchEvent_def Let_def)
qed

subsection \<open>The sample pages\<close>

lemmas model_defs = run_def init_def useOnClickOutside_def useEffect_def effect_def
  unmount_def useEventListener_def addEventListener_def
  dispatchEvent_def handleClick_def opt_chain_def call_def listeners_of_def Let_def

lemma sample_page_eq:
  "sample_page = \<lparr>surface = listeners_of 0 0 5, state = sample_world, calls = [],
     deps = Some (0, 5), scoped = listeners_of 0 0 5, fresh = 1\<rparr>"
  by (simp add: sample_page_def model_defs)




subsection \<open>The claims about the lifecycle\<close>






text \<open>
  C8. The handler leaves the event object as it is, and either leaves the whole state as
  it is or changes the world by running the callback on it (and logs that). Delivering an
  event returns the event unchanged, leaves the listeners and the state of the hook as
  they are, and changes the world by exactly the callbacks invoked during the delivery, in
  order. Rendering the hook and unmounting change neither the world nor the log: they act
  on the listeners only, and the hook returns no value.
\<close>

theorem hook_changes_listeners_only:
  "ev (handleClick env r cb x) = ev x
   \<and> (handleClick env r cb x = x
       \<or> handleClick env r cb x = x\<lparr>wld := env cb (wld x), trace := trace x @ [cb]\<rparr>)
   \<and> fst (dispatchEvent env e s) = e
   \<and> surface (snd (dispatchEvent env e s)) = surface s
   \<and> scoped (snd (dispatchEvent env e s)) = scoped s
   \<and> deps (snd (dispatchEvent env e s)) = deps s
   \<and> state (snd (dispatchEvent env e s)) =
       fold env (drop (length (calls s)) (calls (snd (dispatchEvent env e s)))) (state s)
   \<and> state (useOnClickOutside r cb s) = state s
   \<and> calls (useOnClickOutside r cb s) = calls s
   \<and> state (unmount s) = state s
   \<and> calls (unmount s) = calls s"
proof -
  have "handleClick env r cb x = x
       \<or> handleClick env r cb x = x\<lparr>wld := env cb (wld x), trace := trace x @ [cb]\<rparr>"
    using handleClick_cases [of env r cb x] by (simp add: call_def)
  then show ?thesis
    using dispatch_world [of env e s]
    by (simp add: handleClick_ev dispatch_frame render_frame unmount_frame)
qed

theorem hook_changes_listeners_only_witness:
  "state (snd (dispatchEvent sample_env (press ''mousedown'' (Some 2)) sample_page)) = sample_world
   \<and> state (snd (dispatchEvent sample_env (press ''mousedown'' (Some 9)) sample_page))
       = sample_env 5 sample_world
   \<and> fst (dispatchEvent sample_env (press ''mousedown'' (Some 9)) sample_page)
       = press ''mousedown'' (Some 9)
   \<and> state (unmount sample_page) = sample_world"
proof -
  have i: "calls (snd (dispatchEvent sample_env (press ''mousedown'' (Some 2)) sample_page)) = []"
    by (simp add: sample_page_eq sample_defs model_defs)
  have o: "calls (snd (dispatchEvent sample_env (press ''mousedown'' (Some 9)) sample_page)) = [5]"
    by (simp add: sample_page_eq sample_defs model_defs)
  have c: "calls sample_page = []" "state sample_page = sample_world"
    by (simp_all add: sample_page_eq)
  show ?thesis
    using hook_changes_listeners_only
        [of sample_env 0 5 "sample_exec None" "press ''mousedown'' (Some 2)" sample_page]
      hook_changes_listeners_only
        [of sample_env 0 5 "sample_exec None" "press ''mousedown'' (Some 9)" sample_page]
      i o c
    by simp
qed

end
